theory Spec2Isabelle
  imports Main
begin

section \<open>Shared vocabulary\<close>

text \<open>
  The Go sources report failure through an error value returned beside the result.
  \<open>EOF\<close> is \<^verbatim>\<open>os.EOF\<close> / \<^verbatim>\<open>io.EOF\<close>, \<open>ErrorsNew m\<close> is \<^verbatim>\<open>errors.New(m)\<close> (the
  structural errors of the fastq reader), \<open>IOError m\<close> any other error of the underlying
  stream.  A Go panic is a separate outcome of a call.
\<close>

datatype error = EOF | ErrorsNew string | IOError string

datatype 'a go = Return 'a | Panic string

text \<open>
  A sink is whatever a writer writes to: one write takes the bytes and the sink and gives
  the byte count, the error (if any) and the sink afterwards.  \<open>buffer_write\<close> is the sink
  that never fails and keeps every byte (a \<^verbatim>\<open>bytes.Buffer\<close>).
\<close>

type_synonym 'w write_result = "(int \<times> error option) \<times> 'w"

definition buffer_write :: "string \<Rightarrow> string \<Rightarrow> string write_result" where
  "buffer_write p w = ((int (length p), None), w @ p)"

section \<open>Package alignio: the collection adapter\<close>

text \<open>
  \<^verbatim>\<open>alignio.Writer.Write\<close>: the \<^verbatim>\<open>for _, s := range *a\<close> loop with the named results
  \<open>n\<close> and \<open>err\<close>; the statement after the loop is \<^verbatim>\<open>panic("cannot reach")\<close>.
\<close>

fun alignio_Write_loop ::
  "('s \<Rightarrow> 'w \<Rightarrow> 'w write_result) \<Rightarrow> 's list \<Rightarrow> int \<Rightarrow> 'w \<Rightarrow> (int \<times> error option) go \<times> 'w" where
  "alignio_Write_loop W [] n w = (Panic ''cannot reach'', w)"
| "alignio_Write_loop W (s # a) n w =
     (case W s w of
        ((c, err), w') \<Rightarrow>
          if err \<noteq> None then (Return (n + c, err), w')
          else alignio_Write_loop W a (n + c) w')"

definition alignio_Write ::
  "('s \<Rightarrow> 'w \<Rightarrow> 'w write_result) \<Rightarrow> 's list \<Rightarrow> 'w \<Rightarrow> (int \<times> error option) go \<times> 'w" where
  "alignio_Write W a w = alignio_Write_loop W a 0 w"

text \<open>
  \<^verbatim>\<open>alignio.Reader.Read\<close>: an unbounded \<^verbatim>\<open>for\<close> loop around the wrapped reader, which is
  a function from the reader's state to a sequence or an error and the state afterwards.
  \<^verbatim>\<open>a.Add(s)\<close> appends.  The loop ends only when the wrapped reader returns an error, so
  the result is an \<open>option\<close>: \<open>None\<close> is a loop that never ends.
\<close>

partial_function (option) alignio_Read_loop ::
  "('r \<Rightarrow> (error + 's) \<times> 'r) \<Rightarrow> 's list \<Rightarrow> 'r \<Rightarrow> ((error + 's list) \<times> 'r) option" where
  "alignio_Read_loop R a r =
     (case R r of
        (Inr s, r') \<Rightarrow> alignio_Read_loop R (a @ [s]) r'
      | (Inl err, r') \<Rightarrow>
          if err = EOF then Some (Inr a, r') else Some (Inl err, r'))"

definition alignio_Read ::
  "('r \<Rightarrow> (error + 's) \<times> 'r) \<Rightarrow> 'r \<Rightarrow> ((error + 's list) \<times> 'r) option" where
  "alignio_Read R r = alignio_Read_loop R [] r"

text \<open>
  \<open>delivers R r xs\<close> follows the wrapped reader from state \<open>r\<close> while it returns the
  sequences \<open>xs\<close>, one per call and in this order, and gives the state it is left in.
\<close>

fun delivers :: "('r \<Rightarrow> (error + 's) \<times> 'r) \<Rightarrow> 'r \<Rightarrow> 's list \<Rightarrow> 'r option" where
  "delivers R r [] = Some r"
| "delivers R r (x # xs) =
     (case R r of
        (Inr s, r') \<Rightarrow> if s = x then delivers R r' xs else None
      | (Inl err, r') \<Rightarrow> None)"

text \<open>A reader over a list of ready-made records, used to run the adapter.\<close>

definition list_reader :: "error \<Rightarrow> 's list \<Rightarrow> (error + 's) \<times> 's list" where
  "list_reader e r = (case r of [] \<Rightarrow> (Inl e, []) | s # r' \<Rightarrow> (Inr s, r'))"

section \<open>Byte-slice helpers of the Go library\<close>

text \<open>
  Byte slices are \<open>string\<close>s (lists of 8-bit characters).  The helpers below are the
  functions of Go's \<^verbatim>\<open>bytes\<close> and \<^verbatim>\<open>bufio\<close> packages that the readers call.  White space
  is the ASCII white space \<^verbatim>\<open>\t \n \v \f \r\<close> and the blank.  Go's functions read the
  bytes as UTF-8 and also take the encoded non-ASCII Unicode spaces (such as U+0085 and
  U+00A0) for white space; the helpers agree with them on every stream in which no such
  character occurs, in particular on every ASCII stream.
\<close>

abbreviation LF :: char where "LF \<equiv> CHR 0x0A"
abbreviation CR :: char where "CR \<equiv> CHR 0x0D"

definition isSpace :: "char \<Rightarrow> bool" where
  "isSpace c \<longleftrightarrow>
     c = CHR 0x09 \<or> c = CHR 0x0A \<or> c = CHR 0x0B \<or> c = CHR 0x0C \<or> c = CHR 0x0D \<or> c = CHR 0x20"

text \<open>\<^verbatim>\<open>bytes.TrimSpace\<close>: leading and trailing white space removed.\<close>

definition TrimSpace :: "string \<Rightarrow> string" where
  "TrimSpace s = rev (dropWhile isSpace (rev (dropWhile isSpace s)))"

text \<open>
  \<^verbatim>\<open>bytes.Fields\<close>: the maximal runs of non-space bytes, in order; \<open>cur\<close> is the field
  being collected.
\<close>

fun Fields_from :: "string \<Rightarrow> string \<Rightarrow> string list" where
  "Fields_from cur [] = (if cur = [] then [] else [cur])"
| "Fields_from cur (c # cs) =
     (if isSpace c then (if cur = [] then Fields_from [] cs else cur # Fields_from [] cs)
      else Fields_from (cur @ [c]) cs)"

definition Fields :: "string \<Rightarrow> string list" where
  "Fields s = Fields_from [] s"

text \<open>\<^verbatim>\<open>bytes.Join\<close>.\<close>

fun Join :: "string list \<Rightarrow> string \<Rightarrow> string" where
  "Join [] sep = []"
| "Join [x] sep = x"
| "Join (x # y # zs) sep = x @ sep @ Join (y # zs) sep"

text \<open>\<^verbatim>\<open>bytes.HasPrefix\<close>.\<close>

definition HasPrefix :: "string \<Rightarrow> string \<Rightarrow> bool" where
  "HasPrefix s p \<longleftrightarrow> length p \<le> length s \<and> take (length p) s = p"

text \<open>
  \<^verbatim>\<open>bytes.IndexAny\<close>: the index of the first byte of \<open>s\<close> that occurs in \<open>chars\<close>,
  or \<open>-1\<close>.
\<close>

fun IndexAny :: "string \<Rightarrow> string \<Rightarrow> int" where
  "IndexAny [] chars = - 1"
| "IndexAny (c # cs) chars =
     (if c \<in> set chars then 0
      else (let i = IndexAny cs chars in if i < 0 then - 1 else i + 1))"

text \<open>
  A Go slice expression \<^verbatim>\<open>s[lo:hi]\<close> for bounds already known to satisfy
  \<open>0 \<le> lo \<le> hi \<le> len s\<close>; the callers check the bounds and panic otherwise.
\<close>

definition slice :: "string \<Rightarrow> int \<Rightarrow> int \<Rightarrow> string" where
  "slice s lo hi = take (nat (hi - lo)) (drop (nat lo) s)"

text \<open>
  The input stream is the string of bytes not yet consumed; after the last byte every read
  reports \<open>EOF\<close>.

  \<^verbatim>\<open>bufio.Reader.ReadBytes(delim)\<close>: the bytes up to and including the first \<open>delim\<close>;
  when there is none, whatever is left together with the error.
\<close>

definition ReadBytes :: "char \<Rightarrow> string \<Rightarrow> string \<times> error option \<times> string" where
  "ReadBytes delim r =
     (if delim \<in> set r
      then (takeWhile (\<lambda>c. c \<noteq> delim) r @ [delim], None,
            drop (Suc (length (takeWhile (\<lambda>c. c \<noteq> delim) r))) r)
      else (r, Some EOF, []))"

section \<open>Package fasta: the header/body format\<close>

text \<open>
  Modelled from the spec: the sequence value \<^verbatim>\<open>seq.Seq\<close> of package \<^verbatim>\<open>bio/seq\<close> is not
  among the sources; the reader builds it with \<^verbatim>\<open>seq.New(label, body, nil)\<close> and the
  writer reads its \<^verbatim>\<open>ID\<close>, \<^verbatim>\<open>Seq\<close> and \<^verbatim>\<open>Len()\<close>.
\<close>

record Seq =
  ID :: string
  Seq :: string

definition seq_New :: "string option \<Rightarrow> string \<Rightarrow> Seq" where
  "seq_New label body = \<lparr>ID = (case label of None \<Rightarrow> [] | Some l \<Rightarrow> l), Seq = body\<rparr>"

definition Len :: "Seq \<Rightarrow> int" where
  "Len s = int (length (Seq s))"

text \<open>
  \<^verbatim>\<open>fasta.Reader\<close>: \<open>Reader_r\<close> is the stream behind the buffered reader, \<open>Reader_last\<close> the
  field \<^verbatim>\<open>last\<close>, \<open>None\<close> for Go's \<^verbatim>\<open>nil\<close> (an empty label is not \<^verbatim>\<open>nil\<close>).
\<close>

record fasta_Reader =
  Reader_r :: string
  Reader_IDPrefix :: string
  Reader_SeqPrefix :: string
  Reader_last :: "string option"

definition fasta_NewReader :: "string \<Rightarrow> fasta_Reader" where
  "fasta_NewReader f =
     \<lparr>Reader_r = f, Reader_IDPrefix = ''>'', Reader_SeqPrefix = [], Reader_last = None\<rparr>"

text \<open>
  \<^verbatim>\<open>fasta.Reader.Read\<close>: the loop labelled \<^verbatim>\<open>READ\<close> with the local variables \<open>label\<close>
  and \<open>body\<close>; both ways out of the loop end in \<^verbatim>\<open>seq.New(label, body, nil)\<close>.
\<close>

function fasta_Read_loop ::
  "fasta_Reader \<Rightarrow> string option \<Rightarrow> string \<Rightarrow> (error + Seq) \<times> fasta_Reader" where
  "fasta_Read_loop self label body =
     (case ReadBytes LF (Reader_r self) of
        (line, None, rest) \<Rightarrow>
          (let line1 = (if length line > 0 \<and> last line = CR then butlast line else line);
               line2 = TrimSpace line1
           in if length line2 = 0 then fasta_Read_loop (self\<lparr>Reader_r := rest\<rparr>) label body
              else if HasPrefix line2 (Reader_IDPrefix self) then
                (if Reader_last self = None then
                   fasta_Read_loop
                     (self\<lparr>Reader_r := rest,
                           Reader_last := Some (drop (length (Reader_IDPrefix self)) line2)\<rparr>)
                     (Some (drop (length (Reader_IDPrefix self)) line2)) body
                 else
                   (Inr (seq_New (Reader_last self) body),
                    self\<lparr>Reader_r := rest,
                         Reader_last := Some (drop (length (Reader_IDPrefix self)) line2)\<rparr>))
              else if HasPrefix line2 (Reader_SeqPrefix self) then
                fasta_Read_loop (self\<lparr>Reader_r := rest\<rparr>) label
                  (body @ Join (Fields (drop (length (Reader_SeqPrefix self)) line2)) [])
              else fasta_Read_loop (self\<lparr>Reader_r := rest\<rparr>) label body)
      | (line, Some err, rest) \<Rightarrow>
          (if Reader_last self \<noteq> None
           then (Inr (seq_New label body), self\<lparr>Reader_r := rest, Reader_last := None\<rparr>)
           else (Inl EOF, self\<lparr>Reader_r := rest\<rparr>)))"
  by pat_completeness auto
termination
  by (relation "measure (\<lambda>(self, label, body). length (Reader_r self))")
     (auto simp: ReadBytes_def split: if_splits dest: length_pos_if_in_set)

declare fasta_Read_loop.simps [simp del]

definition fasta_Read :: "fasta_Reader \<Rightarrow> (error + Seq) \<times> fasta_Reader" where
  "fasta_Read self = fasta_Read_loop self (Reader_last self) []"

text \<open>
  \<^verbatim>\<open>fasta.Writer\<close> with its three settings; the sink it writes to is passed beside it, and
  \<open>WriteString\<close> is the write operation of that sink.
\<close>

record fasta_Writer =
  Writer_IDPrefix :: string
  Writer_SeqPrefix :: string
  Writer_Width :: int

definition fasta_NewWriter :: "int \<Rightarrow> fasta_Writer" where
  "fasta_NewWriter width = \<lparr>Writer_IDPrefix = ''>'', Writer_SeqPrefix = [], Writer_Width = width\<rparr>"

text \<open>
  \<^verbatim>\<open>fasta.Writer.Write\<close>, the loop \<^verbatim>\<open>for i := 0; i*self.Width <= s.Len(); i++\<close>.  The slice
  expression \<^verbatim>\<open>s.Seq[self.Width*i:endLinePos]\<close> panics when its bounds are not in order
  (a negative width); with width zero the loop never ends unless a write fails, which is
  the value \<open>None\<close>.  Go's \<^verbatim>\<open>int\<close> is taken as \<open>int\<close>: the products stay below
  twice the sequence length or the width.
\<close>

partial_function (option) fasta_Write_loop ::
  "(string \<Rightarrow> 'w \<Rightarrow> 'w write_result) \<Rightarrow> fasta_Writer \<Rightarrow> Seq \<Rightarrow> int \<Rightarrow> int \<Rightarrow> 'w \<Rightarrow>
   ((int \<times> error option) go \<times> 'w) option" where
  "fasta_Write_loop WriteString self s i n w =
     (if i * Writer_Width self \<le> Len s then
        (let endLinePos = min (Writer_Width self * (i + 1)) (Len s) in
         if Writer_Width self * i < 0 \<or> endLinePos < Writer_Width self * i
         then Some (Panic ''slice bounds out of range'', w)
         else
           (case WriteString
                   (Writer_SeqPrefix self @ slice (Seq s) (Writer_Width self * i) endLinePos @ [LF]) w of
              ((ln, err), w') \<Rightarrow>
                if err \<noteq> None then Some (Return (n + ln, err), w')
                else fasta_Write_loop WriteString self s (i + 1) (n + ln) w'))
      else Some (Return (n, None), w))"

declare fasta_Write_loop.simps [code]

definition fasta_Write ::
  "(string \<Rightarrow> 'w \<Rightarrow> 'w write_result) \<Rightarrow> fasta_Writer \<Rightarrow> Seq \<Rightarrow> 'w \<Rightarrow>
   ((int \<times> error option) go \<times> 'w) option" where
  "fasta_Write WriteString self s w =
     (case WriteString (Writer_IDPrefix self @ ID s @ [LF]) w of
        ((n, err), w') \<Rightarrow>
          if err = None then fasta_Write_loop WriteString self s 0 n w'
          else Some (Return (n, err), w'))"

text \<open>
  The body line that covers the offsets \<open>[W\<cdot>i, min (W\<cdot>(i+1)) len)\<close> of the body, with
  the line prefix before it and the newline after it.
\<close>

definition body_line :: "fasta_Writer \<Rightarrow> Seq \<Rightarrow> int \<Rightarrow> string" where
  "body_line self s i =
     Writer_SeqPrefix self @
     slice (Seq s) (Writer_Width self * i) (min (Writer_Width self * (i + 1)) (Len s)) @ [LF]"

section \<open>Package fastq: the four-line format\<close>

text \<open>
  Modelled from the spec: the sequence value behind \<^verbatim>\<open>seq.Sequence\<close> and
  \<^verbatim>\<open>seqio.SequenceAppender\<close> and the letter type \<^verbatim>\<open>alphabet.QLetter\<close> are not among the
  sources.  A sequence has a name, a description and an ordered list of letters, each with
  its quality; \<^verbatim>\<open>Clone\<close> gives a fresh copy, \<^verbatim>\<open>SetName\<close> and \<^verbatim>\<open>SetDescription\<close> set a
  field, \<^verbatim>\<open>AppendQLetters\<close> appends at the end.  The quality type \<open>'q\<close> is left open; its
  \<open>0\<close> is Go's zero value of a letter made by \<^verbatim>\<open>make\<close>.
\<close>

record 'q QLetter =
  L :: char
  Q :: 'q

record 'q Sequence =
  Name :: string
  Description :: string
  Letters :: "'q QLetter list"

definition Clone :: "'q Sequence \<Rightarrow> 'q Sequence" where
  "Clone s = s"

definition SetName :: "'q Sequence \<Rightarrow> string \<Rightarrow> 'q Sequence" where
  "SetName s n = s\<lparr>Name := n\<rparr>"

definition SetDescription :: "'q Sequence \<Rightarrow> string \<Rightarrow> 'q Sequence" where
  "SetDescription s d = s\<lparr>Description := d\<rparr>"

definition AppendQLetters :: "'q Sequence \<Rightarrow> 'q QLetter list \<Rightarrow> 'q Sequence" where
  "AppendQLetters s a = s\<lparr>Letters := Letters s @ a\<rparr>"

text \<open>
  \<^verbatim>\<open>bufio.Reader.ReadLine\<close> as \<^verbatim>\<open>fastq.Reader.Read\<close> uses it: the caller appends the
  pieces of an over-long line until \<^verbatim>\<open>isPrefix\<close> is false, so one step here gives the
  whole line.  The line end (\<^verbatim>\<open>\n\<close> or \<^verbatim>\<open>\r\n\<close>) is not part of the line; a last line
  without a newline is returned as it is; at the end of the stream the error is \<open>EOF\<close>.
\<close>

definition ReadLine :: "string \<Rightarrow> (string \<times> error option) \<times> string" where
  "ReadLine r =
     (if r = [] then (([], Some EOF), [])
      else if LF \<in> set r then
        (let l = takeWhile (\<lambda>c. c \<noteq> LF) r
         in ((if l \<noteq> [] \<and> last l = CR then butlast l else l, None), drop (Suc (length l)) r))
      else ((r, None), []))"

text \<open>
  \<^verbatim>\<open>fastq.Reader\<close>: the stream, the template \<^verbatim>\<open>t\<close> and the decoding function of the
  encoding \<^verbatim>\<open>enc\<close> resolved by \<^verbatim>\<open>NewReader\<close> (\<^verbatim>\<open>enc.DecodeToQphred\<close>; package
  \<^verbatim>\<open>alphabet\<close> is not among the sources, so the function is a parameter).
\<close>

record 'q fastq_Reader =
  fastq_r :: string
  fastq_t :: "'q Sequence"
  fastq_enc :: "char \<Rightarrow> 'q"


text \<open>\<^verbatim>\<open>fastq.Reader.readHeader\<close>.\<close>

definition readHeader :: "'q fastq_Reader \<Rightarrow> string \<Rightarrow> 'q Sequence" where
  "readHeader self line =
     (let s = Clone (fastq_t self);
          fieldMark = IndexAny line [CHR 0x20, CHR 0x09]
      in if fieldMark < 0 then SetName s (drop 1 line)
         else SetDescription (SetName s (slice line 1 fieldMark)) (drop (nat (fieldMark + 1)) line))"

text \<open>
  \<^verbatim>\<open>fastq.Reader.Read\<close>: the \<^verbatim>\<open>for\<close> loop with the local variables \<open>label\<close>,
  \<open>seqBuff\<close>, \<open>t\<close> (\<open>None\<close> while it is \<^verbatim>\<open>nil\<close>) and \<open>inQual\<close>, and the four cases of
  the \<^verbatim>\<open>switch\<close> in their order.  A method call on the \<^verbatim>\<open>nil\<close> interface panics.
\<close>

function fastq_Read_loop ::
  "('q::zero) fastq_Reader \<Rightarrow> string \<Rightarrow> 'q QLetter list \<Rightarrow> 'q Sequence option \<Rightarrow> bool \<Rightarrow>
   (error + 'q Sequence) go \<times> 'q fastq_Reader" where
  "fastq_Read_loop self label seqBuff t inQual =
     (case ReadLine (fastq_r self) of
        ((buff, Some err), rest) \<Rightarrow> (Return (Inl err), self\<lparr>fastq_r := rest\<rparr>)
      | ((buff, None), rest) \<Rightarrow>
          (let line = TrimSpace buff in
           if length line = 0 then
             fastq_Read_loop (self\<lparr>fastq_r := rest\<rparr>) label seqBuff t inQual
           else if \<not> inQual \<and> line ! 0 = CHR ''@'' then
             fastq_Read_loop (self\<lparr>fastq_r := rest\<rparr>) line seqBuff
               (Some (readHeader self line)) inQual
           else if \<not> inQual \<and> line ! 0 = CHR ''+'' then
             (if length label = 0 then
                (Return (Inl (ErrorsNew
                   ''fastq: no header line parsed before +line in fastq format'')),
                 self\<lparr>fastq_r := rest\<rparr>)
              else if length line > 1 \<and> drop 1 label \<noteq> drop 1 line then
                (Return (Inl (ErrorsNew
                   ''fastq: quality header does not match sequence header'')),
                 self\<lparr>fastq_r := rest\<rparr>)
              else fastq_Read_loop (self\<lparr>fastq_r := rest\<rparr>) label seqBuff t True)
           else if \<not> inQual then
             fastq_Read_loop (self\<lparr>fastq_r := rest\<rparr>) label
               (map (\<lambda>c. \<lparr>L = c, Q = 0\<rparr>) (Join (Fields line) [])) t inQual
           else
             (let line' = Join (Fields line) [] in
              if length line' \<noteq> length seqBuff then
                (Return (Inl (ErrorsNew ''fastq: sequence/quality length mismatch'')),
                 self\<lparr>fastq_r := rest\<rparr>)
              else
                (case t of
                   None \<Rightarrow> (Panic ''nil pointer dereference'', self\<lparr>fastq_r := rest\<rparr>)
                 | Some s \<Rightarrow>
                     (Return (Inr (AppendQLetters s
                        (map (\<lambda>(l, c). l\<lparr>Q := fastq_enc self c\<rparr>) (zip seqBuff line')))),
                      self\<lparr>fastq_r := rest\<rparr>)))))"
  by pat_completeness auto
termination
  by (relation "measure (\<lambda>(self, label, seqBuff, t, inQual). length (fastq_r self))")
     (auto simp: ReadLine_def Let_def split: if_splits dest: length_pos_if_in_set)

declare fastq_Read_loop.simps [simp del]

definition fastq_Read :: "('q::zero) fastq_Reader \<Rightarrow> (error + 'q Sequence) go \<times> 'q fastq_Reader" where
  "fastq_Read self = fastq_Read_loop self [] [] None False"











section \<open>Facts about the byte-slice helpers\<close>

lemma concat_Fields_from:
  "concat (Fields_from cur s) = cur @ filter (\<lambda>c. \<not> isSpace c) s"
  by (induction s arbitrary: cur) auto

lemma Join_Nil_sep: "Join ss [] = concat ss"
  by (induction ss "[] :: string" rule: Join.induct) auto

lemma Join_Fields: "Join (Fields s) [] = filter (\<lambda>c. \<not> isSpace c) s"
  by (simp add: Join_Nil_sep Fields_def concat_Fields_from)

lemma filter_dropWhile_neg: "filter (\<lambda>c. \<not> P c) (dropWhile P s) = filter (\<lambda>c. \<not> P c) s"
  by (induction s) auto

lemma filter_TrimSpace:
  "filter (\<lambda>c. \<not> isSpace c) (TrimSpace s) = filter (\<lambda>c. \<not> isSpace c) s"
  by (simp add: TrimSpace_def rev_filter [symmetric] filter_dropWhile_neg)



lemma ReadLine_shorter:
  "ReadLine r = ((buff, None), rest) \<Longrightarrow> length rest < length r"
  by (cases "r = []"; cases "LF \<in> set r")
     (auto simp: ReadLine_def Let_def dest: length_pos_if_in_set)



section \<open>Results: package fasta\<close>

lemma mult_le_iff_le_div:
  assumes "0 < (W::int)"
  shows "(i * W \<le> a) = (i \<le> a div W)"
proof
  assume "i * W \<le> a"
  then have "(i * W) div W \<le> a div W" using assms by (rule zdiv_mono1)
  then show "i \<le> a div W" using assms by simp
next
  assume le: "i \<le> a div W"
  have "i * W \<le> (a div W) * W" using le assms by (simp add: mult_right_mono)
  also have "\<dots> \<le> a"
  proof -
    have "a = (a div W) * W + a mod W" by simp
    moreover have "0 \<le> a mod W" using assms by simp
    ultimately show ?thesis by linarith
  qed
  finally show "i * W \<le> a" .
qed

lemma fasta_Write_loop_buffer:
  assumes W: "0 < Writer_Width self" and i: "0 \<le> i"
  shows "fasta_Write_loop buffer_write self s i n w =
           Some (Return (n + int (length (concat (map (body_line self s)
                                                   [i..Len s div Writer_Width self]))), None),
                 w @ concat (map (body_line self s) [i..Len s div Writer_Width self]))"
  using i
proof (induction "nat (Len s div Writer_Width self + 1 - i)" arbitrary: i n w)
  case 0
  then have gt: "Len s div Writer_Width self < i" by simp
  then have "\<not> i * Writer_Width self \<le> Len s"
    using W by (simp add: mult_le_iff_le_div)
  then show ?case using gt
    by (subst fasta_Write_loop.simps) simp
next
  case (Suc k)
  then have le: "i \<le> Len s div Writer_Width self" by simp
  then have cond: "i * Writer_Width self \<le> Len s"
    using W by (simp add: mult_le_iff_le_div)
  have lo: "\<not> Writer_Width self * i < 0"
    using W Suc.prems by (simp add: not_less)
  have hi: "\<not> min (Writer_Width self * (i + 1)) (Len s) < Writer_Width self * i"
    using W cond by (simp add: algebra_simps)
  have k: "k = nat (Len s div Writer_Width self + 1 - (i + 1))"
    using Suc.hyps(2) by simp
  have next_ok: "0 \<le> i + 1" using Suc.prems by simp
  note IH = Suc.hyps(1) [OF k next_ok]
  show ?case
    apply (subst fasta_Write_loop.simps)
    apply (simp add: cond lo hi Let_def buffer_write_def IH upto_rec1 [OF le])
    apply (simp add: body_line_def)
    done
qed

text \<open>
  C3 (the code departs from the claim).  With width 3 and the body \<open>ACGTAC\<close> the writer
  emits three body lines after the header line: \<open>ACG\<close>, \<open>TAC\<close> and an empty one, since
  \<open>2 \<cdot> 3 \<le> 6\<close> lets the loop run a third time.  With the body \<open>ACGTA\<close> there are two.
\<close>

theorem fasta_Write_width3_ACGTAC:
  "fasta_Write buffer_write (fasta_NewWriter 3) \<lparr>ID = ''s'', Seq = ''ACGTAC''\<rparr> [] =
     Some (Return (12, None), ''>s'' @ [LF] @ ''ACG'' @ [LF] @ ''TAC'' @ [LF] @ [LF]) \<and>
   fasta_Write buffer_write (fasta_NewWriter 3) \<lparr>ID = ''s'', Seq = ''ACGTA''\<rparr> [] =
     Some (Return (10, None), ''>s'' @ [LF] @ ''ACG'' @ [LF] @ ''TA'' @ [LF])"
  by code_simp

text \<open>
  C4.  For a width \<open>W > 0\<close> and a sink that accepts every write, the writer returns, and
  what it has written is the header line followed by the body lines \<open>body_line self s i\<close>
  for \<open>i = 0, \<dots>, len div W\<close>, in this order: line \<open>i\<close> is the line prefix, the body
  bytes at the offsets from \<open>W\<cdot>i\<close> up to \<open>min (W\<cdot>(i+1)) len\<close> and a newline.  These
  \<open>i\<close> are exactly the ones with \<open>W\<cdot>i \<le> len\<close>, so there is always a first line; for a
  body of length zero it is the only one and holds the prefix and the newline.
\<close>

theorem fasta_Write_body_lines:
  assumes "0 < Writer_Width self"
  shows "fasta_Write buffer_write self s w =
           Some (Return (int (length (Writer_IDPrefix self @ ID s @ [LF] @
                          concat (map (body_line self s) [0..Len s div Writer_Width self]))), None),
                 w @ Writer_IDPrefix self @ ID s @ [LF] @
                   concat (map (body_line self s) [0..Len s div Writer_Width self])) \<and>
         set [0..Len s div Writer_Width self] = {i. 0 \<le> i \<and> i * Writer_Width self \<le> Len s} \<and>
         1 \<le> length (map (body_line self s) [0..Len s div Writer_Width self]) \<and>
         map (body_line self (s\<lparr>Seq := []\<rparr>)) [0..Len (s\<lparr>Seq := []\<rparr>) div Writer_Width self] =
           [Writer_SeqPrefix self @ [LF]]"
proof (intro conjI)
  show "fasta_Write buffer_write self s w =
           Some (Return (int (length (Writer_IDPrefix self @ ID s @ [LF] @
                          concat (map (body_line self s) [0..Len s div Writer_Width self]))), None),
                 w @ Writer_IDPrefix self @ ID s @ [LF] @
                   concat (map (body_line self s) [0..Len s div Writer_Width self]))"
    using fasta_Write_loop_buffer [OF assms, of 0 s]
    by (simp add: fasta_Write_def buffer_write_def)
  show "set [0..Len s div Writer_Width self] = {i. 0 \<le> i \<and> i * Writer_Width self \<le> Len s}"
    using assms by (auto simp: mult_le_iff_le_div)
  have "0 \<le> Len s div Writer_Width self"
    using assms by (simp add: Len_def pos_imp_zdiv_nonneg_iff)
  then show "1 \<le> length (map (body_line self s) [0..Len s div Writer_Width self])"
    by simp
  show "map (body_line self (s\<lparr>Seq := []\<rparr>)) [0..Len (s\<lparr>Seq := []\<rparr>) div Writer_Width self] =
           [Writer_SeqPrefix self @ [LF]]"
    by (simp add: Len_def body_line_def slice_def)
qed

theorem fasta_Write_body_lines_witness:
  "0 < Writer_Width (fasta_NewWriter 3) \<and>
   fasta_Write buffer_write (fasta_NewWriter 3) \<lparr>ID = ''s'', Seq = ''ACGTA''\<rparr> [] =
     Some (Return (10, None), ''>s'' @ [LF] @ ''ACG'' @ [LF] @ ''TA'' @ [LF]) \<and>
   fasta_Write buffer_write (fasta_NewWriter 3) \<lparr>ID = ''s'', Seq = []\<rparr> [] =
     Some (Return (4, None), ''>s'' @ [LF] @ [LF])"
proof -
  have W: "0 < Writer_Width (fasta_NewWriter 3)"
    by (simp add: fasta_NewWriter_def)
  have five: "concat (map (body_line (fasta_NewWriter 3) \<lparr>ID = ''s'', Seq = ''ACGTA''\<rparr>)
                 [0..Len \<lparr>ID = ''s'', Seq = ''ACGTA''\<rparr> div Writer_Width (fasta_NewWriter 3)]) =
              ''ACG'' @ [LF] @ ''TA'' @ [LF]"
    by code_simp
  have none: "concat (map (body_line (fasta_NewWriter 3) \<lparr>ID = ''s'', Seq = []\<rparr>)
                 [0..Len \<lparr>ID = ''s'', Seq = []\<rparr> div Writer_Width (fasta_NewWriter 3)]) = [LF]"
    by code_simp
  have pre: "Writer_IDPrefix (fasta_NewWriter 3) = ''>''"
    by (simp add: fasta_NewWriter_def)
  show ?thesis
    using W fasta_Write_body_lines [OF W, of "\<lparr>ID = ''s'', Seq = ''ACGTA''\<rparr>" "[]"]
      fasta_Write_body_lines [OF W, of "\<lparr>ID = ''s'', Seq = []\<rparr>" "[]"]
    unfolding five none pre by simp
qed

lemma ReadBytes_no_delim: "delim \<notin> set r \<Longrightarrow> ReadBytes delim r = (r, Some EOF, [])"
  by (simp add: ReadBytes_def)

text \<open>
  C7.  When the stream has no further complete line, the reader's loop ends: with a
  pending label (\<open>Reader_last\<close> set) it clears the label and returns the sequence
  assembled so far with no error; with none it returns the end-of-stream error and no
  sequence.  On the stream \<^verbatim>\<open>>a\nACGT\n>b\nTTTT\n\<close> the first call returns \<open>a\<close> with body
  \<open>ACGT\<close> and keeps \<open>b\<close> as the pending label, the second returns \<open>b\<close> with body
  \<open>TTTT\<close>, and the third reports end-of-stream.
\<close>

theorem fasta_Read_end_of_stream:
  "(LF \<notin> set (Reader_r self) \<longrightarrow>
      fasta_Read_loop self label body =
        (if Reader_last self \<noteq> None
         then (Inr (seq_New label body), self\<lparr>Reader_r := [], Reader_last := None\<rparr>)
         else (Inl EOF, self\<lparr>Reader_r := []\<rparr>))) \<and>
   fasta_Read (fasta_NewReader (''>a'' @ [LF] @ ''ACGT'' @ [LF] @ ''>b'' @ [LF] @ ''TTTT'' @ [LF])) =
     (Inr \<lparr>ID = ''a'', Seq = ''ACGT''\<rparr>,
      \<lparr>Reader_r = ''TTTT'' @ [LF], Reader_IDPrefix = ''>'', Reader_SeqPrefix = [],
         Reader_last = Some ''b''\<rparr>) \<and>
   fasta_Read \<lparr>Reader_r = ''TTTT'' @ [LF], Reader_IDPrefix = ''>'', Reader_SeqPrefix = [],
                Reader_last = Some ''b''\<rparr> =
     (Inr \<lparr>ID = ''b'', Seq = ''TTTT''\<rparr>,
      \<lparr>Reader_r = [], Reader_IDPrefix = ''>'', Reader_SeqPrefix = [], Reader_last = None\<rparr>) \<and>
   fasta_Read \<lparr>Reader_r = [], Reader_IDPrefix = ''>'', Reader_SeqPrefix = [],
                Reader_last = None\<rparr> =
     (Inl EOF,
      \<lparr>Reader_r = [], Reader_IDPrefix = ''>'', Reader_SeqPrefix = [], Reader_last = None\<rparr>)"
proof (intro conjI impI)
  assume "LF \<notin> set (Reader_r self)"
  then show "fasta_Read_loop self label body =
           (if Reader_last self \<noteq> None
            then (Inr (seq_New label body), self\<lparr>Reader_r := [], Reader_last := None\<rparr>)
            else (Inl EOF, self\<lparr>Reader_r := []\<rparr>))"
    by (subst fasta_Read_loop.simps) (simp add: ReadBytes_no_delim)
next
  show "fasta_Read (fasta_NewReader (''>a'' @ [LF] @ ''ACGT'' @ [LF] @ ''>b'' @ [LF] @ ''TTTT'' @ [LF])) =
           (Inr \<lparr>ID = ''a'', Seq = ''ACGT''\<rparr>,
            \<lparr>Reader_r = ''TTTT'' @ [LF], Reader_IDPrefix = ''>'', Reader_SeqPrefix = [],
               Reader_last = Some ''b''\<rparr>)"
    by code_simp
next
  show "fasta_Read \<lparr>Reader_r = ''TTTT'' @ [LF], Reader_IDPrefix = ''>'', Reader_SeqPrefix = [],
                      Reader_last = Some ''b''\<rparr> =
           (Inr \<lparr>ID = ''b'', Seq = ''TTTT''\<rparr>,
            \<lparr>Reader_r = [], Reader_IDPrefix = ''>'', Reader_SeqPrefix = [], Reader_last = None\<rparr>)"
    by code_simp
next
  show "fasta_Read \<lparr>Reader_r = [], Reader_IDPrefix = ''>'', Reader_SeqPrefix = [],
                      Reader_last = None\<rparr> =
           (Inl EOF,
            \<lparr>Reader_r = [], Reader_IDPrefix = ''>'', Reader_SeqPrefix = [], Reader_last = None\<rparr>)"
    by code_simp
qed

theorem fasta_Read_end_of_stream_witness:
  "LF \<notin> set (Reader_r \<lparr>Reader_r = ''TT'', Reader_IDPrefix = ''>'', Reader_SeqPrefix = [],
                         Reader_last = Some ''b''\<rparr>) \<and>
   fasta_Read_loop \<lparr>Reader_r = ''TT'', Reader_IDPrefix = ''>'', Reader_SeqPrefix = [],
                     Reader_last = Some ''b''\<rparr> (Some ''b'') ''AC'' =
     (Inr \<lparr>ID = ''b'', Seq = ''AC''\<rparr>,
      \<lparr>Reader_r = [], Reader_IDPrefix = ''>'', Reader_SeqPrefix = [], Reader_last = None\<rparr>) \<and>
   LF \<notin> set (Reader_r \<lparr>Reader_r = [], Reader_IDPrefix = ''>'', Reader_SeqPrefix = [],
                         Reader_last = None\<rparr>) \<and>
   fasta_Read_loop \<lparr>Reader_r = [], Reader_IDPrefix = ''>'', Reader_SeqPrefix = [],
                     Reader_last = None\<rparr> None [] =
     (Inl EOF,
      \<lparr>Reader_r = [], Reader_IDPrefix = ''>'', Reader_SeqPrefix = [], Reader_last = None\<rparr>)"
  using fasta_Read_end_of_stream
          [of "\<lparr>Reader_r = ''TT'', Reader_IDPrefix = ''>'', Reader_SeqPrefix = [],
                 Reader_last = Some ''b''\<rparr>" "Some ''b''" "''AC''"]
        fasta_Read_end_of_stream
          [of "\<lparr>Reader_r = [], Reader_IDPrefix = ''>'', Reader_SeqPrefix = [],
                 Reader_last = None\<rparr>" None "[]"]
  by (simp add: seq_New_def)

section \<open>Results: package fastq\<close>

subsection \<open>One turn of the reader's loop\<close>

lemma Join_Fields_TrimSpace:
  "Join (Fields (TrimSpace s)) [] = filter (\<lambda>c. \<not> isSpace c) s"
  by (simp add: Join_Fields filter_TrimSpace)

lemma fastq_Read_loop_error:
  "ReadLine (fastq_r self) = ((buff, Some e), rest) \<Longrightarrow>
   fastq_Read_loop self label seqBuff t inQual = (Return (Inl e), self\<lparr>fastq_r := rest\<rparr>)"
  by (subst fastq_Read_loop.simps) simp

lemma fastq_Read_loop_blank:
  assumes "ReadLine (fastq_r self) = ((buff, None), rest)" "TrimSpace buff = []"
  shows "fastq_Read_loop self label seqBuff t inQual =
         fastq_Read_loop (self\<lparr>fastq_r := rest\<rparr>) label seqBuff t inQual"
  using assms by (subst fastq_Read_loop.simps) (simp add: Let_def)

lemma fastq_Read_loop_header:
  assumes "ReadLine (fastq_r self) = ((buff, None), rest)" "TrimSpace buff \<noteq> []"
    and "TrimSpace buff ! 0 = CHR ''@''"
  shows "fastq_Read_loop self label seqBuff t False =
         fastq_Read_loop (self\<lparr>fastq_r := rest\<rparr>) (TrimSpace buff) seqBuff
           (Some (readHeader self (TrimSpace buff))) False"
  using assms by (subst fastq_Read_loop.simps) (simp add: Let_def)

lemma fastq_Read_loop_separator:
  assumes "ReadLine (fastq_r self) = ((buff, None), rest)" "TrimSpace buff \<noteq> []"
    and "TrimSpace buff ! 0 = CHR ''+''"
  shows "fastq_Read_loop self label seqBuff t False =
         (if length label = 0 then
            (Return (Inl (ErrorsNew ''fastq: no header line parsed before +line in fastq format'')),
             self\<lparr>fastq_r := rest\<rparr>)
          else if length (TrimSpace buff) > 1 \<and> drop 1 label \<noteq> drop 1 (TrimSpace buff) then
            (Return (Inl (ErrorsNew ''fastq: quality header does not match sequence header'')),
             self\<lparr>fastq_r := rest\<rparr>)
          else fastq_Read_loop (self\<lparr>fastq_r := rest\<rparr>) label seqBuff t True)"
  using assms by (subst fastq_Read_loop.simps) (simp add: Let_def)

lemma fastq_Read_loop_letters:
  assumes "ReadLine (fastq_r self) = ((buff, None), rest)" "TrimSpace buff \<noteq> []"
    and "TrimSpace buff ! 0 \<noteq> CHR ''@''" "TrimSpace buff ! 0 \<noteq> CHR ''+''"
  shows "fastq_Read_loop self label seqBuff t False =
         fastq_Read_loop (self\<lparr>fastq_r := rest\<rparr>) label
           (map (\<lambda>c. \<lparr>L = c, Q = 0\<rparr>) (filter (\<lambda>c. \<not> isSpace c) buff)) t False"
  using assms
  by (subst fastq_Read_loop.simps) (simp add: Join_Fields_TrimSpace Let_def)

lemma fastq_Read_loop_quality:
  assumes "ReadLine (fastq_r self) = ((buff, None), rest)" "TrimSpace buff \<noteq> []"
  shows "fastq_Read_loop self label seqBuff t True =
         (if length (filter (\<lambda>c. \<not> isSpace c) buff) \<noteq> length seqBuff then
            (Return (Inl (ErrorsNew ''fastq: sequence/quality length mismatch'')),
             self\<lparr>fastq_r := rest\<rparr>)
          else
            (case t of
               None \<Rightarrow> (Panic ''nil pointer dereference'', self\<lparr>fastq_r := rest\<rparr>)
             | Some s \<Rightarrow>
                 (Return (Inr (AppendQLetters s
                    (map (\<lambda>(l, c). l\<lparr>Q := fastq_enc self c\<rparr>)
                       (zip seqBuff (filter (\<lambda>c. \<not> isSpace c) buff))))),
                  self\<lparr>fastq_r := rest\<rparr>)))"
  using assms
  by (subst fastq_Read_loop.simps) (simp add: Join_Fields_TrimSpace Let_def)


lemma ReadLine_cases:
  obtains (eof) "r = []" "ReadLine r = (([], Some EOF), [])"
  | (line) buff rest where "ReadLine r = ((buff, None), rest)" "length rest < length r"
proof (cases "r = []")
  case True
  then show ?thesis using eof by (simp add: ReadLine_def)
next
  case False
  then have "\<exists>buff rest. ReadLine r = ((buff, None), rest)"
    by (cases "LF \<in> set r") (simp_all add: ReadLine_def Let_def)
  then obtain buff rest where rl: "ReadLine r = ((buff, None), rest)"
    by blast
  then show ?thesis using line ReadLine_shorter by blast
qed


subsection \<open>Runs of lines\<close>





subsection \<open>The template is set before the quality section\<close>

text \<open>
  The loop keeps \<open>t\<close> set whenever a label has been read, and is in the quality state
  only after a label has been read; so a read that starts from \<^verbatim>\<open>Read\<close>'s initial state
  never calls a method of the \<^verbatim>\<open>nil\<close> interface.
\<close>

lemma fastq_Read_loop_no_panic:
  assumes "label \<noteq> [] \<longrightarrow> t \<noteq> None" and "inQual \<longrightarrow> label \<noteq> []"
  shows "fst (fastq_Read_loop self label seqBuff t inQual) \<noteq> Panic msg"
  using assms
proof (induction "length (fastq_r self)" arbitrary: self label seqBuff t inQual rule: less_induct)
  case less
  show ?case
  proof (cases "fastq_r self" rule: ReadLine_cases)
    case eof
    then show ?thesis by (simp add: fastq_Read_loop_error)
  next
    case (line buff rest)
    have shorter: "length (fastq_r (self\<lparr>fastq_r := rest\<rparr>)) < length (fastq_r self)"
      using line(2) by simp
    note IH = less.hyps [OF shorter]
    show ?thesis
    proof (cases "TrimSpace buff = []")
      case True
      show ?thesis
        using IH [OF less.prems] by (simp add: fastq_Read_loop_blank [OF line(1) True])
    next
      case False
      show ?thesis
      proof (cases inQual)
        case True
        then have "t \<noteq> None" using less.prems by simp
        then show ?thesis
          using True by (auto simp: fastq_Read_loop_quality [OF line(1) False])
      next
        case notQ: False
        consider (header) "TrimSpace buff ! 0 = CHR ''@''"
          | (separator) "TrimSpace buff ! 0 = CHR ''+''"
          | (letters) "TrimSpace buff ! 0 \<noteq> CHR ''@''" "TrimSpace buff ! 0 \<noteq> CHR ''+''"
          by blast
        then show ?thesis
        proof cases
          case header
          have "fst (fastq_Read_loop (self\<lparr>fastq_r := rest\<rparr>) (TrimSpace buff) seqBuff
                  (Some (readHeader self (TrimSpace buff))) False) \<noteq> Panic msg"
            by (rule IH) simp_all
          then show ?thesis
            using notQ by (simp add: fastq_Read_loop_header [OF line(1) False header])
        next
          case separator
          have "label \<noteq> [] \<Longrightarrow>
                fst (fastq_Read_loop (self\<lparr>fastq_r := rest\<rparr>) label seqBuff t True) \<noteq> Panic msg"
            using less.prems by (intro IH) simp_all
          then show ?thesis
            using notQ by (simp add: fastq_Read_loop_separator [OF line(1) False separator])
        next
          case letters
          have "fst (fastq_Read_loop (self\<lparr>fastq_r := rest\<rparr>) label
                  (map (\<lambda>c. \<lparr>L = c, Q = 0\<rparr>) (filter (\<lambda>c. \<not> isSpace c) buff)) t False) \<noteq> Panic msg"
            using less.prems by (intro IH) simp_all
          then show ?thesis
            using notQ by (simp add: fastq_Read_loop_letters [OF line(1) False letters])
        qed
      qed
    qed
  qed
qed

lemma fastq_Read_no_panic: "fst (fastq_Read self) \<noteq> Panic msg"
  unfolding fastq_Read_def by (rule fastq_Read_loop_no_panic) simp_all

subsection \<open>Sequence-letter lines\<close>




subsection \<open>The separator line\<close>




subsection \<open>The quality section\<close>





subsection \<open>The writer on a sink that accepts every write\<close>






subsection \<open>Reading back what the writer wrote\<close>
















section \<open>Results: package alignio\<close>

lemma alignio_Write_loop_no_normal_return:
  "fst (alignio_Write_loop W a n w) \<noteq> Return (m, None)"
proof (induction a arbitrary: n w)
  case Nil
  show ?case by simp
next
  case (Cons s a)
  obtain c err w' where step: "W s w = ((c, err), w')"
    by (metis prod.exhaust)
  show ?case
  proof (cases err)
    case None
    with step Cons.IH [of "n + c" w'] show ?thesis by simp
  next
    case (Some e)
    with step show ?thesis by simp
  qed
qed

text \<open>
  C1 (the code departs from the claim).  The bulk write never returns normally without an
  error: when every element write succeeds the loop runs off its end into the panic, and
  the empty collection panics at once.
\<close>

theorem alignio_Write_success_panics:
  "alignio_Write W [] w = (Panic ''cannot reach'', w) \<and>
   fst (alignio_Write W a w) \<noteq> Return (m, None)"
  by (simp add: alignio_Write_def alignio_Write_loop_no_normal_return)

lemma alignio_Read_loop_delivers:
  "delivers R r xs = Some r' \<Longrightarrow> R r' = (Inl e, r'') \<Longrightarrow>
   alignio_Read_loop R a r = Some (if e = EOF then Inr (a @ xs) else Inl e, r'')"
proof (induction xs arbitrary: r a)
  case Nil
  then show ?case
    by (subst alignio_Read_loop.simps) simp
next
  case (Cons x xs)
  from Cons.prems(1) obtain r1 where step: "R r = (Inr x, r1)" and rest: "delivers R r1 xs = Some r'"
    by (auto split: prod.splits sum.splits if_splits)
  have "alignio_Read_loop R a r = alignio_Read_loop R (a @ [x]) r1"
    using step by (subst alignio_Read_loop.simps) simp
  also have "\<dots> = Some (if e = EOF then Inr ((a @ [x]) @ xs) else Inl e, r'')"
    using rest Cons.prems(2) by (rule Cons.IH)
  finally show ?case by simp
qed

text \<open>
  C8.  When the wrapped reader returns the sequences \<open>xs\<close> one after another and then an
  error \<open>e\<close>, the bulk read returns: for \<open>e = EOF\<close> the collection \<open>xs\<close> in read order
  and no error (the empty collection when the first call already signals end-of-stream);
  for any other \<open>e\<close> that error and no collection.
\<close>

theorem alignio_Read_collects:
  assumes "delivers R r xs = Some r'" and "R r' = (Inl e, r'')"
  shows "alignio_Read R r = Some (if e = EOF then Inr xs else Inl e, r'')"
  using alignio_Read_loop_delivers [OF assms, of "[]"] by (simp add: alignio_Read_def)

theorem alignio_Read_collects_witness:
  "delivers fasta_Read (fasta_NewReader (''>a'' @ [LF] @ ''ACGT'' @ [LF] @ ''>b'' @ [LF] @ ''TTTT'' @ [LF]))
     [\<lparr>ID = ''a'', Seq = ''ACGT''\<rparr>, \<lparr>ID = ''b'', Seq = ''TTTT''\<rparr>] =
     Some (fasta_NewReader []) \<and>
   fasta_Read (fasta_NewReader []) = (Inl EOF, fasta_NewReader []) \<and>
   alignio_Read fasta_Read
     (fasta_NewReader (''>a'' @ [LF] @ ''ACGT'' @ [LF] @ ''>b'' @ [LF] @ ''TTTT'' @ [LF])) =
     Some (Inr [\<lparr>ID = ''a'', Seq = ''ACGT''\<rparr>, \<lparr>ID = ''b'', Seq = ''TTTT''\<rparr>], fasta_NewReader []) \<and>
   delivers fasta_Read (fasta_NewReader []) [] = Some (fasta_NewReader []) \<and>
   alignio_Read fasta_Read (fasta_NewReader []) = Some (Inr [], fasta_NewReader []) \<and>
   delivers (list_reader (ErrorsNew ''fastq: sequence/quality length mismatch''))
     [\<lparr>ID = ''a'', Seq = ''ACGT''\<rparr>] [\<lparr>ID = ''a'', Seq = ''ACGT''\<rparr>] = Some [] \<and>
   list_reader (ErrorsNew ''fastq: sequence/quality length mismatch'') ([] :: Seq list) =
     (Inl (ErrorsNew ''fastq: sequence/quality length mismatch''), []) \<and>
   alignio_Read (list_reader (ErrorsNew ''fastq: sequence/quality length mismatch''))
     [\<lparr>ID = ''a'', Seq = ''ACGT''\<rparr>] =
     Some (Inl (ErrorsNew ''fastq: sequence/quality length mismatch''), [])"
proof -
  let ?r = "fasta_NewReader (''>a'' @ [LF] @ ''ACGT'' @ [LF] @ ''>b'' @ [LF] @ ''TTTT'' @ [LF])"
  let ?e = "ErrorsNew ''fastq: sequence/quality length mismatch''"
  have a1: "delivers fasta_Read ?r [\<lparr>ID = ''a'', Seq = ''ACGT''\<rparr>, \<lparr>ID = ''b'', Seq = ''TTTT''\<rparr>] =
              Some (fasta_NewReader [])"
    by code_simp
  have a2: "fasta_Read (fasta_NewReader []) = (Inl EOF, fasta_NewReader [])"
    by code_simp
  have b1: "delivers fasta_Read (fasta_NewReader []) [] = Some (fasta_NewReader [])"
    by simp
  have c1: "delivers (list_reader ?e) [\<lparr>ID = ''a'', Seq = ''ACGT''\<rparr>] [\<lparr>ID = ''a'', Seq = ''ACGT''\<rparr>] = Some []"
    by (simp add: list_reader_def)
  have c2: "list_reader ?e ([] :: Seq list) = (Inl ?e, [])"
    by (simp add: list_reader_def)
  show ?thesis
    using a1 a2 b1 c1 c2 alignio_Read_collects [OF a1 a2] alignio_Read_collects [OF b1 a2]
      alignio_Read_collects [OF c1 c2]
    by simp
qed

end
